theory Spec2Isabelle
  imports Complex_Main "HOL-Library.Multiset"
begin

section \<open>Errors raised by the notebook cells\<close>

text \<open>
  The notebooks are linear scripts over FITS headers and FITS table columns.
  A missing header keyword raises Python's \<open>KeyError\<close>, an index outside an
  array raises \<open>IndexError\<close>; both are values here.  Header values are
  real numbers (the midpoint is studied under exact arithmetic); table cells
  are floating-point values, with the infinities and NaN.
\<close>

datatype error = KeyError string | IndexError nat


section \<open>K2 full frame images: the exposure midpoint\<close>

text \<open>
  \<^verbatim>\<open>mid_time = (header['TSTOP'] + header['TSTART']) / 2\<close>

  A FITS header is a dictionary from keywords to values.  The subscripts are
  evaluated left to right, so a header lacking both keywords reports
  \<open>TSTOP\<close>.
\<close>

type_synonym header = "string \<rightharpoonup> real"

definition getitem :: "header \<Rightarrow> string \<Rightarrow> error + real" where
  "getitem h k = (case h k of None \<Rightarrow> Inl (KeyError k) | Some v \<Rightarrow> Inr v)"

definition mid_time :: "header \<Rightarrow> error + real" where
  "mid_time h =
     (case getitem h ''TSTOP'' of
        Inl e \<Rightarrow> Inl e
      | Inr tstop \<Rightarrow>
          (case getitem h ''TSTART'' of
             Inl e \<Rightarrow> Inl e
           | Inr tstart \<Rightarrow> Inr ((tstop + tstart) / 2)))"


section \<open>Kepler DVT: the folded light curve in phase order\<close>

text \<open>
  The first extension of a DVT file is a binary table; the cell reads the
  columns \<open>TIME\<close>, \<open>PHASE\<close>, \<open>LC_INIT\<close> and \<open>MODEL_INIT\<close> of it.  The
  cells are IEEE floating-point numbers: a finite value, an infinity, or NaN
  (the null of a FITS floating-point column, which the notebook does not
  filter out).  The cell performs no arithmetic on them, only comparisons
  and copies, so a finite value is its real number.
\<close>

datatype fp = Finite real | PosInf | NegInf | NaN

text \<open>The comparison \<^verbatim>\<open>x <= y\<close> of two floats: false whenever NaN is involved.\<close>

fun fle :: "fp \<Rightarrow> fp \<Rightarrow> bool" where
  "fle NaN y = False"
| "fle x NaN = False"
| "fle NegInf y = True"
| "fle x PosInf = True"
| "fle (Finite a) (Finite b) = (a \<le> b)"
| "fle x y = False"

text \<open>
  The order numpy sorts floats by: that of \<open>fle\<close>, with every NaN after all
  other values.
\<close>

definition np_le :: "fp \<Rightarrow> fp \<Rightarrow> bool" where
  "np_le x y = (y = NaN \<or> fle x y)"

text \<open>A table is a list of rows, a column the projection of every row.\<close>

record dvt_row =
  TIME :: fp
  PHASE :: fp
  LC_INIT :: fp
  MODEL_INIT :: fp

definition column :: "(dvt_row \<Rightarrow> fp) \<Rightarrow> dvt_row list \<Rightarrow> fp list" where
  "column c tbl = map c tbl"

text \<open>
  \<^verbatim>\<open>np.argsort(a)\<close> is a library function.  What it promises: the result
  holds every index of \<open>a\<close> once, and reading \<open>a\<close> through it gives the values
  in numpy's sort order.  With the default sort kind the order among equal
  values is not fixed, so the plotting cell below takes the function as a
  parameter and the properties are shown for every function that keeps this
  promise.
\<close>

definition is_argsort :: "fp list \<Rightarrow> nat list \<Rightarrow> bool" where
  "is_argsort a idx =
     (mset idx = mset [0..<length a] \<and> sorted_wrt np_le (map (\<lambda>i. a ! i) idx))"

text \<open>
  One function that keeps the promise, to run the cell on concrete tables:
  insertion of the indices by value, equal values in index order.
\<close>

fun insert_idx :: "fp list \<Rightarrow> nat \<Rightarrow> nat list \<Rightarrow> nat list" where
  "insert_idx a i [] = [i]"
| "insert_idx a i (j # js) =
     (if np_le (a ! i) (a ! j) then i # j # js else j # insert_idx a i js)"

definition argsort :: "fp list \<Rightarrow> nat list" where
  "argsort a = foldr (insert_idx a) [0..<length a] []"

text \<open>
  \<^verbatim>\<open>a[idx]\<close> with an index array: the elements of \<open>a\<close> at the positions of
  \<open>idx\<close>, in the order of \<open>idx\<close>; the first position outside \<open>a\<close> raises.
\<close>

definition take_idx :: "'a list \<Rightarrow> nat list \<Rightarrow> error + 'a list" where
  "take_idx a idx =
     (case find (\<lambda>i. length a \<le> i) idx of
        Some i \<Rightarrow> Inl (IndexError i)
      | None \<Rightarrow> Inr (map (\<lambda>i. a ! i) idx))"

text \<open>
  \<^verbatim>\<open>sort_indexes = np.argsort(phases)\<close>
  \<^verbatim>\<open>ax.plot(phases[sort_indexes], fluxes_init[sort_indexes], ...)\<close>
  \<^verbatim>\<open>ax.plot(phases[sort_indexes], model_fluxes_init[sort_indexes], ...)\<close>

  The points handed to one \<open>ax.plot\<close> call, as (phase, flux) pairs in plotting
  order; \<open>c\<close> is the flux column of the call (\<open>LC_INIT\<close> or \<open>MODEL_INIT\<close>),
  \<open>np_argsort\<close> the library's index sort.
\<close>

definition plot_points ::
  "(fp list \<Rightarrow> nat list) \<Rightarrow> (dvt_row \<Rightarrow> fp) \<Rightarrow> dvt_row list \<Rightarrow> error + (fp \<times> fp) list" where
  "plot_points np_argsort c tbl =
     (let phases = column PHASE tbl;
          fluxes = column c tbl;
          sort_indexes = np_argsort phases
      in case take_idx phases sort_indexes of
           Inl e \<Rightarrow> Inl e
         | Inr xs \<Rightarrow>
             (case take_idx fluxes sort_indexes of
                Inl e \<Rightarrow> Inl e
              | Inr ys \<Rightarrow> Inr (zip xs ys)))"


section \<open>Properties of the sort order and of the index sort\<close>

lemma np_le_total: "np_le x y \<or> np_le y x"
  by (cases x; cases y) (auto simp: np_le_def)

lemma np_le_trans: "np_le x y \<Longrightarrow> np_le y z \<Longrightarrow> np_le x z"
  by (cases x; cases y; cases z) (auto simp: np_le_def)

lemma np_le_is_fle: "x \<noteq> NaN \<Longrightarrow> y \<noteq> NaN \<Longrightarrow> np_le x y = fle x y"
  by (simp add: np_le_def)

lemma mset_insert_idx: "mset (insert_idx a i js) = add_mset i (mset js)"
  by (induction js) simp_all

lemma set_insert_idx: "set (insert_idx a i js) = insert i (set js)"
  by (induction js) auto

lemma sorted_insert_idx:
  assumes "sorted_wrt np_le (map (\<lambda>i. a ! i) js)"
  shows "sorted_wrt np_le (map (\<lambda>i. a ! i) (insert_idx a i js))"
  using assms
proof (induction js)
  case Nil
  then show ?case by simp
next
  case (Cons j js)
  show ?case
  proof (cases "np_le (a ! i) (a ! j)")
    case True
    have "np_le (a ! i) (a ! k)" if "k \<in> set js" for k
      using True Cons.prems that np_le_trans [of "a ! i" "a ! j" "a ! k"] by auto
    with True Cons.prems show ?thesis by auto
  next
    case False
    then have ji: "np_le (a ! j) (a ! i)" using np_le_total by blast
    have "sorted_wrt np_le (map (\<lambda>i. a ! i) (insert_idx a i js))"
      using Cons by simp
    moreover have "np_le (a ! j) (a ! k)" if "k \<in> set (insert_idx a i js)" for k
      using that ji Cons.prems by (auto simp: set_insert_idx)
    ultimately show ?thesis using False by auto
  qed
qed

lemma mset_foldr_insert_idx: "mset (foldr (insert_idx a) xs []) = mset xs"
  by (induction xs) (simp_all add: mset_insert_idx)

lemma sorted_foldr_insert_idx:
  "sorted_wrt np_le (map (\<lambda>i. a ! i) (foldr (insert_idx a) xs []))"
  by (induction xs) (simp_all add: sorted_insert_idx)

lemma argsort_is_argsort: "is_argsort a (argsort a)"
  by (simp add: is_argsort_def argsort_def mset_foldr_insert_idx sorted_foldr_insert_idx)

lemma take_idx_in_range:
  assumes "set idx \<subseteq> {0..<length a}"
  shows "take_idx a idx = Inr (map (\<lambda>i. a ! i) idx)"
proof -
  have "find (\<lambda>i. length a \<le> i) idx = None"
    using assms by (auto simp: find_None_iff)
  then show ?thesis by (simp add: take_idx_def)
qed

lemma zip_take_same_idx:
  "zip (map (\<lambda>i. a ! i) idx) (map (\<lambda>i. b ! i) idx) = map (\<lambda>i. (a ! i, b ! i)) idx"
  by (induction idx) simp_all

lemma pairs_by_index:
  assumes "length a = length b"
  shows "map (\<lambda>i. (a ! i, b ! i)) [0..<length a] = zip a b"
proof -
  have "map (\<lambda>i. (a ! i, b ! i)) [0..<length a] = map (\<lambda>i. zip a b ! i) [0..<length (zip a b)]"
    using assms by simp
  also have "\<dots> = zip a b" by (rule map_nth)
  finally show ?thesis .
qed

lemma mset_pairs_of_permuted_indices:
  assumes "mset idx = mset [0..<length a]" and "length a = length b"
  shows "mset (map (\<lambda>i. (a ! i, b ! i)) idx) = mset (zip a b)"
proof -
  have "mset (map (\<lambda>i. (a ! i, b ! i)) idx) = image_mset (\<lambda>i. (a ! i, b ! i)) (mset idx)"
    by simp
  also have "\<dots> = mset (map (\<lambda>i. (a ! i, b ! i)) [0..<length a])"
    by (simp add: assms(1))
  also have "\<dots> = mset (zip a b)"
    by (simp only: pairs_by_index [OF assms(2)])
  finally show ?thesis .
qed

lemma is_argsort_set:
  assumes "is_argsort a idx"
  shows "set idx = {0..<length a}"
proof -
  from assms have "mset idx = mset [0..<length a]" by (simp add: is_argsort_def)
  then have "set idx = set [0..<length a]" by (rule mset_eq_setD)
  then show ?thesis by simp
qed

lemma plot_points_eq:
  assumes "is_argsort (column PHASE tbl) (np_argsort (column PHASE tbl))"
  shows "plot_points np_argsort c tbl =
     Inr (map (\<lambda>i. (column PHASE tbl ! i, column c tbl ! i)) (np_argsort (column PHASE tbl)))"
proof -
  let ?p = "column PHASE tbl" and ?f = "column c tbl"
  let ?idx = "np_argsort ?p"
  have len: "length ?f = length ?p" by (simp add: column_def)
  have rng: "set ?idx = {0..<length ?p}" using assms by (rule is_argsort_set)
  have p: "take_idx ?p ?idx = Inr (map (\<lambda>i. ?p ! i) ?idx)"
    by (rule take_idx_in_range) (simp add: rng)
  have f: "take_idx ?f ?idx = Inr (map (\<lambda>i. ?f ! i) ?idx)"
    by (rule take_idx_in_range) (simp add: rng len)
  show ?thesis
    by (simp add: plot_points_def Let_def p f zip_take_same_idx)
qed

lemma nan_last_finite_sorted:
  assumes "sorted_wrt np_le xs"
  shows "sorted_wrt fle (filter (\<lambda>x. x \<noteq> NaN) xs)"
proof -
  have "sorted_wrt np_le (filter (\<lambda>x. x \<noteq> NaN) xs)"
    using assms by (rule sorted_wrt_filter)
  then show ?thesis
    by (rule sorted_wrt_mono_rel [rotated]) (simp add: np_le_def)
qed


section \<open>The claims\<close>

text \<open>
  C9, as the cell behaves.  For every index sort that keeps the promise of
  \<open>np.argsort\<close>, indexing the phase column and a flux column by the sorted
  indices never raises and yields (phase, flux) pairs that are a permutation
  of the original pairs of the table.  The phases come in numpy's sort
  order: those that are not NaN in non-decreasing order, the NaN ones after
  them.  When no phase is NaN the phases are in non-decreasing order.  This
  holds for either flux column plotted.
\<close>

theorem plot_points_permutation_nan_last:
  assumes "is_argsort (column PHASE tbl) (np_argsort (column PHASE tbl))"
  shows "\<exists>pts. plot_points np_argsort c tbl = Inr pts
     \<and> mset pts = mset (zip (column PHASE tbl) (column c tbl))
     \<and> sorted_wrt np_le (map fst pts)
     \<and> sorted_wrt fle (filter (\<lambda>x. x \<noteq> NaN) (map fst pts))
     \<and> (NaN \<notin> set (column PHASE tbl) \<longrightarrow> sorted_wrt fle (map fst pts))"
proof -
  let ?p = "column PHASE tbl" and ?f = "column c tbl"
  let ?idx = "np_argsort ?p"
  let ?pts = "map (\<lambda>i. (?p ! i, ?f ! i)) ?idx"
  have len: "length ?p = length ?f" by (simp add: column_def)
  have run: "plot_points np_argsort c tbl = Inr ?pts" using assms by (rule plot_points_eq)
  have idx: "mset ?idx = mset [0..<length ?p]" using assms by (simp add: is_argsort_def)
  have perm: "mset ?pts = mset (zip ?p ?f)"
    by (rule mset_pairs_of_permuted_indices [OF idx len])
  have phs: "map fst ?pts = map (\<lambda>i. ?p ! i) ?idx" by (simp add: comp_def)
  have ord: "sorted_wrt np_le (map fst ?pts)"
    using assms by (simp only: phs is_argsort_def)
  have fin: "sorted_wrt fle (filter (\<lambda>x. x \<noteq> NaN) (map fst ?pts))"
    using ord by (rule nan_last_finite_sorted)
  have rng: "set ?idx = {0..<length ?p}" using assms by (rule is_argsort_set)
  have clean: "NaN \<notin> set ?p \<longrightarrow> sorted_wrt fle (map fst ?pts)"
  proof
    assume free: "NaN \<notin> set ?p"
    have "x \<noteq> NaN" if "x \<in> set (map (\<lambda>i. ?p ! i) ?idx)" for x
    proof -
      from that obtain i where "i \<in> set ?idx" and x: "x = ?p ! i" by auto
      with rng have "i < length ?p" by simp
      then have "?p ! i \<in> set ?p" by (rule nth_mem)
      with free x show ?thesis by metis
    qed
    then have "filter (\<lambda>x. x \<noteq> NaN) (map (\<lambda>i. ?p ! i) ?idx) = map (\<lambda>i. ?p ! i) ?idx"
      by (simp only: filter_id_conv) blast
    with fin show "sorted_wrt fle (map fst ?pts)" by (simp only: phs)
  qed
  from run perm ord fin clean show ?thesis by blast
qed

theorem plot_points_permutation_nan_last_witness:
  "is_argsort [Finite (1/4), Finite (- (1/2)), Finite (1/4)] (argsort [Finite (1/4), Finite (- (1/2)), Finite (1/4)])
   \<and> NaN \<notin> set [Finite (1/4), Finite (- (1/2)), Finite (1/4)]
   \<and> plot_points argsort LC_INIT
       [\<lparr>TIME = Finite (263/2), PHASE = Finite (1/4), LC_INIT = Finite 3, MODEL_INIT = Finite 0\<rparr>,
        \<lparr>TIME = Finite 132, PHASE = Finite (- (1/2)), LC_INIT = NaN, MODEL_INIT = Finite (-1)\<rparr>,
        \<lparr>TIME = Finite (265/2), PHASE = Finite (1/4), LC_INIT = Finite 1, MODEL_INIT = Finite 0\<rparr>]
     = Inr [(Finite (- (1/2)), NaN), (Finite (1/4), Finite 3), (Finite (1/4), Finite 1)]
   \<and> mset [(Finite (- (1/2)), NaN), (Finite (1/4), Finite 3), (Finite (1/4), Finite 1)]
     = mset (zip [Finite (1/4), Finite (- (1/2)), Finite (1/4)] [Finite 3, NaN, Finite 1])
   \<and> sorted_wrt fle (map fst [(Finite (- (1/2)), NaN), (Finite (1/4), Finite 3), (Finite (1/4), Finite 1)])"
proof -
  let ?tbl = "[\<lparr>TIME = Finite (263/2), PHASE = Finite (1/4), LC_INIT = Finite 3, MODEL_INIT = Finite 0\<rparr>,
        \<lparr>TIME = Finite 132, PHASE = Finite (- (1/2)), LC_INIT = NaN, MODEL_INIT = Finite (-1)\<rparr>,
        \<lparr>TIME = Finite (265/2), PHASE = Finite (1/4), LC_INIT = Finite 1, MODEL_INIT = Finite 0\<rparr>]"
  let ?res = "[(Finite (- (1/2)), NaN), (Finite (1/4), Finite 3), (Finite (1/4), Finite 1)]"
  have cols: "column PHASE ?tbl = [Finite (1/4), Finite (- (1/2)), Finite (1/4)]"
    "column LC_INIT ?tbl = [Finite 3, NaN, Finite 1]"
    by (simp_all add: column_def)
  have idx: "argsort [Finite (1/4), Finite (- (1/2)), Finite (1/4)] = [1, 0, 2]"
    by (simp add: argsort_def np_le_def upt_rec)
  have hyp: "is_argsort (column PHASE ?tbl) (argsort (column PHASE ?tbl))"
    by (simp add: cols idx is_argsort_def np_le_def upt_rec)
  have free: "NaN \<notin> set (column PHASE ?tbl)" by (simp add: cols)
  have run: "plot_points argsort LC_INIT ?tbl = Inr ?res"
    by (simp add: plot_points_def cols idx take_idx_def)
  from plot_points_permutation_nan_last [of ?tbl argsort LC_INIT, OF hyp]
  obtain pts where pts: "plot_points argsort LC_INIT ?tbl = Inr pts"
    "mset pts = mset (zip (column PHASE ?tbl) (column LC_INIT ?tbl))"
    "NaN \<notin> set (column PHASE ?tbl) \<longrightarrow> sorted_wrt fle (map fst pts)" by blast
  from pts(1) run have eq: "pts = ?res" by simp
  from pts(3) free have "sorted_wrt fle (map fst pts)" by (rule mp)
  with pts(2) eq have "mset ?res = mset (zip (column PHASE ?tbl) (column LC_INIT ?tbl))"
    "sorted_wrt fle (map fst ?res)" by simp_all
  with hyp free run show ?thesis unfolding cols by blast
qed

text \<open>
  C9 as it was stated, with the phases non-decreasing for every table, fails
  on a table whose first phase is NaN: the sorted indices are \<open>[2, 1, 0]\<close>,
  the plotted phases \<open>-0.5, 0.5, NaN\<close>, and \<open>0.5 <= NaN\<close> is false.  The three
  phases are distinct, so the order among equal values plays no part.
\<close>

theorem plot_points_nan_phase_not_sorted:
  "is_argsort [NaN, Finite (1/2), Finite (- (1/2))] (argsort [NaN, Finite (1/2), Finite (- (1/2))])
   \<and> plot_points argsort LC_INIT
       [\<lparr>TIME = Finite (263/2), PHASE = NaN, LC_INIT = Finite 1, MODEL_INIT = Finite 1\<rparr>,
        \<lparr>TIME = Finite 132, PHASE = Finite (1/2), LC_INIT = Finite 2, MODEL_INIT = Finite 2\<rparr>,
        \<lparr>TIME = Finite (265/2), PHASE = Finite (- (1/2)), LC_INIT = Finite 3, MODEL_INIT = Finite 3\<rparr>]
     = Inr [(Finite (- (1/2)), Finite 3), (Finite (1/2), Finite 2), (NaN, Finite 1)]
   \<and> \<not> sorted_wrt fle (map fst [(Finite (- (1/2)), Finite 3), (Finite (1/2), Finite 2), (NaN, Finite 1)])"
proof -
  have idx: "argsort [NaN, Finite (1/2), Finite (- (1/2))] = [2, 1, 0]"
    by (simp add: argsort_def np_le_def upt_rec)
  show ?thesis
    by (simp add: plot_points_def column_def idx take_idx_def is_argsort_def np_le_def upt_rec)
qed

text \<open>
  C10.  For a header that holds \<open>TSTART\<close> and \<open>TSTOP\<close> with
  \<open>TSTART \<le> TSTOP\<close>, the midpoint cell returns a value, and that value lies
  between \<open>TSTART\<close> and \<open>TSTOP\<close> (exact arithmetic).
\<close>

theorem mid_time_between:
  assumes "h ''TSTART'' = Some tstart" and "h ''TSTOP'' = Some tstop"
    and "tstart \<le> tstop"
  shows "\<exists>m. mid_time h = Inr m \<and> tstart \<le> m \<and> m \<le> tstop"
proof -
  have run: "mid_time h = Inr ((tstop + tstart) / 2)"
    using assms(1,2) by (simp add: mid_time_def getitem_def)
  have lo: "tstart \<le> (tstop + tstart) / 2" using assms(3) by simp
  have hi: "(tstop + tstart) / 2 \<le> tstop" using assms(3) by simp
  from run lo hi show ?thesis by blast
qed

theorem mid_time_between_witness:
  "[''TSTART'' \<mapsto> 2456.25, ''TSTOP'' \<mapsto> 2456.75] ''TSTART'' = Some (2456.25 :: real)
   \<and> [''TSTART'' \<mapsto> 2456.25, ''TSTOP'' \<mapsto> 2456.75] ''TSTOP'' = Some (2456.75 :: real)
   \<and> (2456.25 :: real) \<le> 2456.75
   \<and> mid_time [''TSTART'' \<mapsto> 2456.25, ''TSTOP'' \<mapsto> 2456.75] = Inr 2456.5"
proof -
  let ?h = "[''TSTART'' \<mapsto> 2456.25 :: real, ''TSTOP'' \<mapsto> 2456.75]"
  have a: "?h ''TSTART'' = Some 2456.25" by simp
  have b: "?h ''TSTOP'' = Some 2456.75" by simp
  have c: "(2456.25 :: real) \<le> 2456.75" by simp
  from mid_time_between [OF a b c]
  obtain m where m: "mid_time ?h = Inr m" "2456.25 \<le> m" "m \<le> 2456.75" by blast
  have "mid_time ?h = Inr 2456.5" by (simp add: mid_time_def getitem_def)
  with a b c m show ?thesis by simp
qed

end
